theory Spec2Isabelle
  imports Complex_Main
begin

section \<open>Exceptions\<close>

text \<open>
  Every \<^verbatim>\<open>assert\<close>, \<^verbatim>\<open>raise\<close> and library failure of \<^verbatim>\<open>plotting/common.py\<close> is a
  value of this type; a function that can fail returns \<open>error + 'a\<close> with \<open>Inl\<close> the
  failure.  \<open>Exception\<close> carries the message the source formats.
\<close>

datatype error =
  AssertionError | IndexError | ValueError | TypeError | AttributeError | Exception string

section \<open>Strings\<close>

text \<open>\<^verbatim>\<open>s.startswith(p)\<close>, \<^verbatim>\<open>s.endswith(p)\<close> and \<^verbatim>\<open>p in s\<close> on Python strings.\<close>

fun startswith :: "string \<Rightarrow> string \<Rightarrow> bool" where
  "startswith s [] = True"
| "startswith [] (p # ps) = False"
| "startswith (c # cs) (p # ps) = (c = p \<and> startswith cs ps)"

definition endswith :: "string \<Rightarrow> string \<Rightarrow> bool" where
  "endswith s p = startswith (rev s) (rev p)"

fun str_contains :: "string \<Rightarrow> string \<Rightarrow> bool" where
  "str_contains [] p = (p = [])"
| "str_contains (c # cs) p = (startswith (c # cs) p \<or> str_contains cs p)"

section \<open>The rig's dimensions\<close>

text \<open>
  \<^verbatim>\<open>class dimensions\<close>: the attributes set by \<^verbatim>\<open>__init__\<close>.  The module imports true
  division, so \<^verbatim>\<open>40 / 1000\<close> is a fraction.  NumPy's double precision numbers are
  modelled by the reals: rounding is not part of the model.
\<close>

record dimensions =
  D :: real
  height :: real
  width :: real
  Ubulk :: real
  trailing_edge :: real
  z_offset :: real
  y_offset :: real
  z_flip :: real

definition dimensions_init :: "bool \<Rightarrow> dimensions" where
  "dimensions_init reacting =
     (let d = 40 / 1000;
          h = 3 * d;
          w = 2 * d;
          ub = (if \<not> reacting then 166 / 10 else 176 / 10);
          te = - 200 / 1000
      in \<lparr>D = d, height = h, width = w, Ubulk = ub, trailing_edge = te,
          z_offset = te, y_offset = h / 2, z_flip = - 1\<rparr>)"

text \<open>
  \<^verbatim>\<open>getattr(dims, name, default)\<close>: the attribute called \<open>name\<close> when the object has
  one, the default otherwise.
\<close>

definition getattr :: "dimensions \<Rightarrow> string \<Rightarrow> real \<Rightarrow> real" where
  "getattr dims attr dflt =
     (if attr = ''D'' then D dims
      else if attr = ''height'' then height dims
      else if attr = ''width'' then width dims
      else if attr = ''Ubulk'' then Ubulk dims
      else if attr = ''trailing_edge'' then trailing_edge dims
      else if attr = ''z_offset'' then z_offset dims
      else if attr = ''y_offset'' then y_offset dims
      else if attr = ''z_flip'' then z_flip dims
      else dflt)"

section \<open>Two-dimensional arrays\<close>

text \<open>
  A two-dimensional NumPy array of floats: its rows, and its second dimension
  \<open>shape1\<close>, which an array keeps even when it has no row.  \<open>wf_array\<close> says that the
  value is an array at all: every row has \<open>shape1\<close> entries.
\<close>

record ndarray =
  shape1 :: nat
  rows :: "real list list"

definition shape0 :: "ndarray \<Rightarrow> nat" where
  "shape0 a = length (rows a)"

definition array_shape :: "ndarray \<Rightarrow> nat \<times> nat" where
  "array_shape a = (shape0 a, shape1 a)"

definition wf_array :: "ndarray \<Rightarrow> bool" where
  "wf_array a = list_all (\<lambda>r. length r = shape1 a) (rows a)"

text \<open>
  The in-place column operations \<^verbatim>\<open>a[:, i] -= x\<close>, \<^verbatim>\<open>a[:, i] *= x\<close> and
  \<^verbatim>\<open>a[:, i] /= x\<close> for a column number \<open>i \<ge> 0\<close>: NumPy raises IndexError when the
  array has no such column, and changes entry \<open>i\<close> of every row otherwise.
\<close>

definition col_update :: "(real \<Rightarrow> real) \<Rightarrow> nat \<Rightarrow> ndarray \<Rightarrow> error + ndarray" where
  "col_update f i a =
     (if i < shape1 a then Inr (a\<lparr>rows := map (\<lambda>r. r[i := f (r ! i)]) (rows a)\<rparr>)
      else Inl IndexError)"

definition col_isub :: "nat \<Rightarrow> real \<Rightarrow> ndarray \<Rightarrow> error + ndarray" where
  "col_isub i x a = col_update (\<lambda>v. v - x) i a"

definition col_imul :: "nat \<Rightarrow> real \<Rightarrow> ndarray \<Rightarrow> error + ndarray" where
  "col_imul i x a = col_update (\<lambda>v. v * x) i a"

definition col_idiv :: "nat \<Rightarrow> real \<Rightarrow> ndarray \<Rightarrow> error + ndarray" where
  "col_idiv i x a = col_update (\<lambda>v. v / x) i a"

text \<open>Sequencing of statements that may raise.\<close>

definition seq :: "error + 'a \<Rightarrow> ('a \<Rightarrow> error + 'b) \<Rightarrow> error + 'b" where
  "seq m f = (case m of Inl e \<Rightarrow> Inl e | Inr x \<Rightarrow> f x)"

section \<open>Datasets\<close>

record dataset =
  columns :: "string list"
  data :: ndarray
  name :: string
  is_simulation :: bool

text \<open>
  \<^verbatim>\<open>dataset.__init__\<close>: the attributes are copies of the arguments, and the
  assertion on the number of columns ends the construction.
\<close>

definition dataset_init :: "string list \<Rightarrow> ndarray \<Rightarrow> string \<Rightarrow> bool \<Rightarrow> error + dataset" where
  "dataset_init cols dat nm sim =
     (if length cols = shape1 dat
      then Inr \<lparr>columns = cols, data = dat, name = nm, is_simulation = sim\<rparr>
      else Inl AssertionError)"

definition npoints :: "dataset \<Rightarrow> nat" where
  "npoints ds = shape1 (data ds)"

definition shape :: "dataset \<Rightarrow> nat \<times> nat" where
  "shape ds = array_shape (data ds)"

text \<open>The structural invariant: as many column names as columns in the array.\<close>

definition dataset_inv :: "dataset \<Rightarrow> bool" where
  "dataset_inv ds = (length (columns ds) = shape1 (data ds) \<and> wf_array (data ds))"

subsection \<open>normalize\<close>

text \<open>
  The body of the loop of \<^verbatim>\<open>dataset.normalize\<close> for one pair \<open>(i, col)\<close> of
  \<^verbatim>\<open>enumerate(self.columns)\<close>, on the array \<^verbatim>\<open>self.data\<close>.
\<close>

definition normalize_step :: "dimensions \<Rightarrow> string \<Rightarrow> nat \<times> string \<Rightarrow> ndarray \<Rightarrow> error + ndarray" where
  "normalize_step dims nm ic a =
     (let i = fst ic; col = snd ic in
      if col \<in> set [''y'', ''z''] then
        (let offset = getattr dims (col @ ''_offset'') 0;
             flip = getattr dims (col @ ''_flip'') 1
         in seq (col_isub i offset a) (\<lambda>a1.
            seq (col_imul i flip a1) (\<lambda>a2.
            col_idiv i (D dims) a2)))
      else if col \<in> set [''Ux'', ''Uy'', ''Uz''] then
        (let axis = [last col] in
         seq (if \<not> str_contains nm ''fluct''
              then (let flip = getattr dims (axis @ ''_flip'') 1 in col_imul i flip a)
              else Inr a) (\<lambda>a1.
         col_idiv i (Ubulk dims) a1))
      else Inr a)"

fun normalize_loop :: "dimensions \<Rightarrow> string \<Rightarrow> (nat \<times> string) list \<Rightarrow> ndarray \<Rightarrow> error + ndarray" where
  "normalize_loop dims nm [] a = Inr a"
| "normalize_loop dims nm (ic # ics) a =
     seq (normalize_step dims nm ic a) (normalize_loop dims nm ics)"

definition normalize_dataset :: "dataset \<Rightarrow> bool \<Rightarrow> error + dataset" where
  "normalize_dataset ds reacting =
     (if \<not> is_simulation ds then Inl AssertionError
      else seq (normalize_loop (dimensions_init reacting) (name ds)
                  (enumerate 0 (columns ds)) (data ds))
             (\<lambda>a. Inr (ds\<lparr>data := a\<rparr>)))"

text \<open>
  What the specification says of one value \<open>v\<close> of a column called \<open>col\<close>, written
  from its words: a spatial coordinate loses its offset, is multiplied by its flip
  sign and divided by the characteristic length; a velocity is multiplied by the
  flip sign of its axis unless the dataset holds a fluctuation, and divided by the
  bulk velocity; any other value stays.
\<close>

definition spec_value :: "dimensions \<Rightarrow> string \<Rightarrow> string \<Rightarrow> real \<Rightarrow> real" where
  "spec_value dims nm col v =
     (if col = ''y'' \<or> col = ''z'' then
        (v - getattr dims (col @ ''_offset'') 0) * getattr dims (col @ ''_flip'') 1 / D dims
      else if col = ''Ux'' \<or> col = ''Uy'' \<or> col = ''Uz'' then
        (if str_contains nm ''fluct'' then v / Ubulk dims
         else v * getattr dims ([last col] @ ''_flip'') 1 / Ubulk dims)
      else v)"

subsection \<open>Item assignment\<close>

text \<open>
  \<^verbatim>\<open>dataset.__setitem__\<close> is \<^verbatim>\<open>self.data[key] = value\<close>.  The keys modelled are
  NumPy's basic ones on a two-dimensional array: an integer (negative ones count
  from the end) or the full slice \<^verbatim>\<open>:\<close>, alone or as a pair; the value is a number
  or a one-dimensional array, broadcast to the selection.  A bad index raises
  IndexError, a value that cannot be broadcast raises ValueError.
\<close>

datatype index = Idx int | Slice_all

datatype key = Key1 index | Key2 index index

datatype val = Scalar real | Vector "real list"

definition norm_index :: "nat \<Rightarrow> int \<Rightarrow> error + nat" where
  "norm_index n i =
     (if - int n \<le> i \<and> i < int n then Inr (nat (if i < 0 then i + int n else i))
      else Inl IndexError)"

fun select :: "nat \<Rightarrow> index \<Rightarrow> error + nat list" where
  "select n (Idx i) = seq (norm_index n i) (\<lambda>k. Inr [k])"
| "select n Slice_all = Inr [0..<n]"

fun assign_values :: "index \<Rightarrow> index \<Rightarrow> nat \<Rightarrow> nat \<Rightarrow> val \<Rightarrow> error + (nat \<Rightarrow> nat \<Rightarrow> real)" where
  "assign_values k1 k2 nr nc (Scalar v) = Inr (\<lambda>r c. v)"
| "assign_values (Idx i) (Idx j) nr nc (Vector xs) =
     (if length xs = 1 then Inr (\<lambda>r c. xs ! 0) else Inl ValueError)"
| "assign_values (Idx i) Slice_all nr nc (Vector xs) =
     (if length xs = 1 then Inr (\<lambda>r c. xs ! 0)
      else if length xs = nc then Inr (\<lambda>r c. xs ! c) else Inl ValueError)"
| "assign_values Slice_all (Idx j) nr nc (Vector xs) =
     (if length xs = 1 then Inr (\<lambda>r c. xs ! 0)
      else if length xs = nr then Inr (\<lambda>r c. xs ! r) else Inl ValueError)"
| "assign_values Slice_all Slice_all nr nc (Vector xs) =
     (if length xs = 1 then Inr (\<lambda>r c. xs ! 0)
      else if length xs = nc then Inr (\<lambda>r c. xs ! c) else Inl ValueError)"

fun key_indices :: "key \<Rightarrow> index \<times> index" where
  "key_indices (Key1 k) = (k, Slice_all)"
| "key_indices (Key2 k1 k2) = (k1, k2)"

definition array_setitem :: "ndarray \<Rightarrow> key \<Rightarrow> val \<Rightarrow> error + ndarray" where
  "array_setitem a k v =
     (let k1 = fst (key_indices k); k2 = snd (key_indices k) in
      seq (select (shape0 a) k1) (\<lambda>rs.
      seq (select (shape1 a) k2) (\<lambda>cs.
      seq (assign_values k1 k2 (shape0 a) (shape1 a) v) (\<lambda>f.
      Inr (a\<lparr>rows :=
             map (\<lambda>(r, row). if r \<in> set rs
                    then map (\<lambda>(c, x). if c \<in> set cs then f r c else x) (enumerate 0 row)
                    else row)
               (enumerate 0 (rows a))\<rparr>)))))"

definition setitem :: "dataset \<Rightarrow> key \<Rightarrow> val \<Rightarrow> error + dataset" where
  "setitem ds k v = seq (array_setitem (data ds) k v) (\<lambda>a. Inr (ds\<lparr>data := a\<rparr>))"

section \<open>Paths\<close>

text \<open>
  The functions of \<^verbatim>\<open>os.path\<close> (POSIX) that the module calls: \<^verbatim>\<open>join\<close>,
  \<^verbatim>\<open>isabs\<close>, \<^verbatim>\<open>normpath\<close> and \<^verbatim>\<open>abspath\<close>, with \<^verbatim>\<open>str.split\<close> and \<^verbatim>\<open>str.join\<close>.
  What they read of the machine is a parameter: the working directory, the
  directory of the script (the module's \<^verbatim>\<open>script_dir\<close>) and which paths are
  directories.
\<close>

record env =
  cwd :: string
  script_dir :: string
  isdir :: "string \<Rightarrow> bool"

definition join2 :: "string \<Rightarrow> string \<Rightarrow> string" where
  "join2 path b =
     (if startswith b ''/'' then b
      else if path = [] \<or> endswith path ''/'' then path @ b
      else path @ ''/'' @ b)"

definition pjoin :: "string \<Rightarrow> string list \<Rightarrow> string" where
  "pjoin a p = foldl join2 a p"

definition isabs :: "string \<Rightarrow> bool" where
  "isabs s = startswith s ''/''"

fun split_sep :: "char \<Rightarrow> string \<Rightarrow> string list" where
  "split_sep sep [] = [[]]"
| "split_sep sep (c # cs) =
     (if c = sep then [] # split_sep sep cs
      else (case split_sep sep cs of
              [] \<Rightarrow> [[c]]
            | w # ws \<Rightarrow> (c # w) # ws))"

fun str_join :: "string \<Rightarrow> string list \<Rightarrow> string" where
  "str_join sep [] = []"
| "str_join sep [w] = w"
| "str_join sep (w # w' # ws) = w @ sep @ str_join sep (w' # ws)"

definition normpath_step :: "nat \<Rightarrow> string list \<Rightarrow> string \<Rightarrow> string list" where
  "normpath_step initial_slashes new_comps cmp =
     (if cmp \<in> set [[], ''.''] then new_comps
      else if cmp \<noteq> ''..'' \<or> (initial_slashes = 0 \<and> new_comps = [])
              \<or> (new_comps \<noteq> [] \<and> last new_comps = ''..'')
      then new_comps @ [cmp]
      else if new_comps \<noteq> [] then butlast new_comps
      else new_comps)"

definition normpath :: "string \<Rightarrow> string" where
  "normpath path =
     (if path = [] then ''.''
      else
        (let initial_slashes =
               (if startswith path ''/''
                then (if startswith path ''//'' \<and> \<not> startswith path ''///'' then 2 else 1)
                else 0);
             comps = split_sep CHR ''/'' path;
             new_comps = foldl (normpath_step initial_slashes) [] comps;
             p = str_join ''/'' new_comps;
             p' = (if initial_slashes \<noteq> 0 then replicate initial_slashes CHR ''/'' @ p else p)
         in if p' = [] then ''.'' else p'))"

definition abspath :: "env \<Rightarrow> string \<Rightarrow> string" where
  "abspath e path =
     (if \<not> isabs path then normpath (pjoin (cwd e) [path]) else normpath path)"

section \<open>Plot styles and user options\<close>

text \<open>
  \<^verbatim>\<open>plt.get_cmap(name, lut)\<close> gives the colour map \<open>name\<close> resampled to \<open>lut\<close>
  entries.  Calling a colour map on an integer gives the entry of its table with
  that number; a number below the table selects the slot after the table, a number
  above it the slot after that one.  The colours themselves are matplotlib's and
  are not modelled: a colour is the map and the number of the slot.
\<close>

record colormap =
  cmap_name :: string
  lut_size :: nat

definition get_cmap :: "string \<Rightarrow> nat \<Rightarrow> colormap" where
  "get_cmap nm lut = \<lparr>cmap_name = nm, lut_size = lut\<rparr>"

definition cmap_call :: "colormap \<Rightarrow> int \<Rightarrow> colormap \<times> nat" where
  "cmap_call cm x =
     (cm, if x < 0 then lut_size cm
          else if x > int (lut_size cm) - 1 then lut_size cm + 1
          else nat x)"

record PlotStyles =
  num_colors :: nat
  grey :: bool

definition PlotStyles_init :: "string list \<Rightarrow> bool \<Rightarrow> PlotStyles" where
  "PlotStyles_init cs g = \<lparr>num_colors = length cs + 1, grey = g\<rparr>"

definition color_map :: "PlotStyles \<Rightarrow> colormap" where
  "color_map ps =
     (let cmap = (if grey ps then ''Greys'' else ''inferno'')
      in get_cmap cmap (num_colors ps + 1))"

text \<open>
  \<^verbatim>\<open>class UserOptions\<close>.  An attribute that \<^verbatim>\<open>__init__\<close> may leave as \<^verbatim>\<open>None\<close>, or
  sets only at its end, is an option.
\<close>

record UserOptions =
  cases :: "string list"
  reacting :: bool
  t_start :: real
  t_end :: real
  base_path :: "string option"
  out_path :: "string option"
  velocity_component :: "string list"
  style :: "PlotStyles option"

definition get_cases :: "env \<Rightarrow> UserOptions \<Rightarrow> string list \<times> UserOptions" where
  "get_cases e self =
     (let bp = (case base_path self of
                  None \<Rightarrow> abspath e (pjoin (script_dir e) [''..''])
                | Some b \<Rightarrow> if b \<noteq> [] then abspath e b
                            else abspath e (pjoin (script_dir e) [''..'']));
          react_str = (if reacting self then ''reacting'' else ''non-reacting'');
          bp' = pjoin bp [react_str]
      in (map (\<lambda>c. pjoin bp' [c]) (cases self), self\<lparr>base_path := Some bp'\<rparr>))"

definition UserOptions_init ::
  "env \<Rightarrow> string list \<Rightarrow> bool \<Rightarrow> real \<Rightarrow> real \<Rightarrow> string option \<Rightarrow> string option \<Rightarrow> string
     \<Rightarrow> UserOptions" where
  "UserOptions_init e cs r ts te bp op vc =
     (let self = \<lparr>cases = cs, reacting = r, t_start = ts, t_end = te, base_path = bp,
                  out_path = op,
                  velocity_component = (if vc = ''both'' then [''z'', ''y''] else [vc]),
                  style = None\<rparr>;
          res = get_cases e self;
          self = (snd res)\<lparr>cases := fst res\<rparr>;
          self = (if out_path self = None then self\<lparr>out_path := Some (script_dir e)\<rparr>
                  else self)
      in self\<lparr>style := Some (PlotStyles_init (cases self) False)\<rparr>)"

definition ncases :: "UserOptions \<Rightarrow> nat" where
  "ncases self = length (cases self)"




definition color :: "UserOptions \<Rightarrow> int \<Rightarrow> bool \<Rightarrow> error + colormap \<times> nat" where
  "color self caseno is_exp =
     (case style self of
        None \<Rightarrow> Inl AttributeError
      | Some st \<Rightarrow> Inr (cmap_call (color_map st) (if \<not> is_exp then caseno + 1 else 0)))"

section \<open>Properties of normalize\<close>

text \<open>Three in-place operations on one column are one update of the column.\<close>

lemma upd_upd:
  "r[i := g (r[i := f (r ! i)] ! i)] = r[i := g (f (r ! i))]"
  by (cases "i < length r") (simp_all add: list_update_beyond)

lemma col_update_seq:
  "seq (col_update f i a) (col_update g i) = col_update (\<lambda>v. g (f v)) i a"
  by (simp add: seq_def col_update_def upd_upd comp_def)

lemma col_update_id: "i < shape1 a \<Longrightarrow> col_update (\<lambda>v. v) i a = Inr a"
  by (simp add: col_update_def)

lemma col_ops:
  "col_isub i x = col_update (\<lambda>v. v - x) i"
  "col_imul i x = col_update (\<lambda>v. v * x) i"
  "col_idiv i x = col_update (\<lambda>v. v / x) i"
  by (simp_all add: fun_eq_iff col_isub_def col_imul_def col_idiv_def)

lemma seq_Inr: "seq (Inr x) f = f x"
  by (simp add: seq_def)

lemma normalize_step_eq:
  "normalize_step dims nm (i, col) a =
     (if col \<in> {''y'', ''z'', ''Ux'', ''Uy'', ''Uz''}
      then col_update (spec_value dims nm col) i a else Inr a)"
  by (auto simp add: normalize_step_def spec_value_def [abs_def] Let_def col_ops
      col_update_seq seq_Inr)

lemma normalize_step_spec:
  assumes "i < shape1 a"
  shows "normalize_step dims nm (i, col) a =
     Inr (a\<lparr>rows := map (\<lambda>r. r[i := spec_value dims nm col (r ! i)]) (rows a)\<rparr>)"
proof (cases "col \<in> {''y'', ''z'', ''Ux'', ''Uy'', ''Uz''}")
  case True
  then show ?thesis using assms by (simp only: normalize_step_eq col_update_def if_True)
next
  case False
  then have "spec_value dims nm col = (\<lambda>v. v)"
    by (auto simp add: spec_value_def fun_eq_iff)
  with False show ?thesis by (simp add: normalize_step_eq)
qed

lemma normalize_loop_enum:
  "n + length cs \<le> shape1 a \<Longrightarrow>
   \<exists>a'. normalize_loop dims nm (enumerate n cs) a = Inr a' \<and> shape1 a' = shape1 a \<and>
        length (rows a') = length (rows a) \<and>
        (\<forall>j<length (rows a). length (rows a' ! j) = length (rows a ! j) \<and>
           (\<forall>k<length (rows a ! j). rows a' ! j ! k =
              (if n \<le> k \<and> k < n + length cs
               then spec_value dims nm (cs ! (k - n)) (rows a ! j ! k)
               else rows a ! j ! k)))"
proof (induction cs arbitrary: n a)
  case Nil
  then show ?case by simp
next
  case (Cons c cs)
  let ?a1 = "a\<lparr>rows := map (\<lambda>r. r[n := spec_value dims nm c (r ! n)]) (rows a)\<rparr>"
  have n: "n < shape1 a" using Cons.prems by simp
  have step: "normalize_step dims nm (n, c) a = Inr ?a1"
    by (rule normalize_step_spec [OF n])
  have "Suc n + length cs \<le> shape1 ?a1" using Cons.prems by simp
  from Cons.IH [OF this] obtain a' where
    l: "normalize_loop dims nm (enumerate (Suc n) cs) ?a1 = Inr a'" and
    s: "shape1 a' = shape1 ?a1" and
    len: "length (rows a') = length (rows ?a1)" and
    pt: "\<forall>j<length (rows ?a1). length (rows a' ! j) = length (rows ?a1 ! j) \<and>
           (\<forall>k<length (rows ?a1 ! j). rows a' ! j ! k =
              (if Suc n \<le> k \<and> k < Suc n + length cs
               then spec_value dims nm (cs ! (k - Suc n)) (rows ?a1 ! j ! k)
               else rows ?a1 ! j ! k))"
    by blast
  have run: "normalize_loop dims nm (enumerate n (c # cs)) a = Inr a'"
    using step l by (simp add: seq_def)
  have pt': "length (rows a' ! j) = length (rows a ! j) \<and>
           (\<forall>k<length (rows a ! j). rows a' ! j ! k =
              (if n \<le> k \<and> k < n + length (c # cs)
               then spec_value dims nm ((c # cs) ! (k - n)) (rows a ! j ! k)
               else rows a ! j ! k))" if j: "j < length (rows a)" for j
  proof -
    have r1: "rows ?a1 ! j = (rows a ! j)[n := spec_value dims nm c (rows a ! j ! n)]"
      using j by simp
    from pt j have a: "length (rows a' ! j) = length (rows ?a1 ! j)"
      and b: "\<And>k. k < length (rows ?a1 ! j) \<Longrightarrow> rows a' ! j ! k =
              (if Suc n \<le> k \<and> k < Suc n + length cs
               then spec_value dims nm (cs ! (k - Suc n)) (rows ?a1 ! j ! k)
               else rows ?a1 ! j ! k)"
      by simp_all
    show ?thesis
    proof (intro conjI allI impI)
      show "length (rows a' ! j) = length (rows a ! j)" using a r1 by simp
    next
      fix k assume k: "k < length (rows a ! j)"
      then have "k < length (rows ?a1 ! j)" using r1 by simp
      from b [OF this] show "rows a' ! j ! k =
              (if n \<le> k \<and> k < n + length (c # cs)
               then spec_value dims nm ((c # cs) ! (k - n)) (rows a ! j ! k)
               else rows a ! j ! k)"
        using k j by (cases "k = n") (auto simp add: nth_Cons' Suc_diff_Suc)
    qed
  qed
  show ?case using run s len pt' by simp
qed


lemma normalize_refines:
  assumes sim: "is_simulation ds" and inv: "dataset_inv ds"
  shows "normalize_dataset ds react =
     Inr (ds\<lparr>data := (data ds)\<lparr>rows :=
       map (\<lambda>r. map2 (spec_value (dimensions_init react) (name ds)) (columns ds) r)
         (rows (data ds))\<rparr>\<rparr>)"
proof -
  let ?dims = "dimensions_init react"
  let ?a = "data ds"
  let ?g = "\<lambda>r. map2 (spec_value ?dims (name ds)) (columns ds) r"
  have len: "length (columns ds) = shape1 ?a" and
    wf: "\<And>r. r \<in> set (rows ?a) \<Longrightarrow> length r = shape1 ?a"
    using inv by (simp_all add: dataset_inv_def wf_array_def list_all_iff)
  have "0 + length (columns ds) \<le> shape1 ?a" using len by simp
  from normalize_loop_enum [OF this, of ?dims "name ds"] obtain a' where
    run: "normalize_loop ?dims (name ds) (enumerate 0 (columns ds)) ?a = Inr a'" and
    s: "shape1 a' = shape1 ?a" and
    l: "length (rows a') = length (rows ?a)" and
    pt: "\<And>j. j < length (rows ?a) \<Longrightarrow> length (rows a' ! j) = length (rows ?a ! j) \<and>
           (\<forall>k<length (rows ?a ! j). rows a' ! j ! k =
              (if 0 \<le> k \<and> k < 0 + length (columns ds)
               then spec_value ?dims (name ds) (columns ds ! (k - 0)) (rows ?a ! j ! k)
               else rows ?a ! j ! k))"
    by blast
  have "rows a' = map ?g (rows ?a)"
  proof (rule nth_equalityI)
    show "length (rows a') = length (map ?g (rows ?a))" using l by simp
  next
    fix j assume "j < length (rows a')"
    then have j: "j < length (rows ?a)" using l by simp
    then have lj: "length (rows ?a ! j) = shape1 ?a" using wf by simp
    have "rows a' ! j = ?g (rows ?a ! j)"
    proof (rule nth_equalityI)
      show "length (rows a' ! j) = length (?g (rows ?a ! j))"
        using pt [OF j] lj len by simp
    next
      fix k assume "k < length (rows a' ! j)"
      then have k: "k < length (rows ?a ! j)" using pt [OF j] by simp
      then show "rows a' ! j ! k = ?g (rows ?a ! j) ! k"
        using pt [OF j] lj len by simp
    qed
    then show "rows a' ! j = map ?g (rows ?a) ! j" using j by simp
  qed
  then have "a' = ?a\<lparr>rows := map ?g (rows ?a)\<rparr>" using s by simp
  then show ?thesis using sim run by (simp add: normalize_dataset_def seq_def)
qed

lemma normalize_step_error: "normalize_step dims nm ic a = Inl e \<Longrightarrow> e = IndexError"
  by (cases ic) (auto simp add: normalize_step_eq col_update_def split: if_splits)

lemma normalize_loop_error: "normalize_loop dims nm ics a = Inl e \<Longrightarrow> e = IndexError"
proof (induction ics arbitrary: a)
  case Nil
  then show ?case by simp
next
  case (Cons ic ics)
  then show ?case
    by (cases "normalize_step dims nm ic a") (auto simp add: seq_def dest: normalize_step_error)
qed

lemma dimensions_values:
  "D (dimensions_init r) = 4 / 100"
  "Ubulk (dimensions_init r) = (if r then 176 / 10 else 166 / 10)"
  "getattr (dimensions_init r) ''y_offset'' 0 = 6 / 100"
  "getattr (dimensions_init r) ''z_offset'' 0 = - 2 / 10"
  "getattr (dimensions_init r) ''x_flip'' 1 = 1"
  "getattr (dimensions_init r) ''y_flip'' 1 = 1"
  "getattr (dimensions_init r) ''z_flip'' 1 = - 1"
  by (simp_all add: dimensions_init_def getattr_def Let_def)

text \<open>One entry of the normalized array.\<close>

lemma normalize_entry:
  assumes sim: "is_simulation ds" and inv: "dataset_inv ds"
    and i: "i < length (columns ds)" and j: "j < shape0 (data ds)"
  shows "\<exists>ds'. normalize_dataset ds react = Inr ds' \<and>
     rows (data ds') ! j ! i =
       spec_value (dimensions_init react) (name ds) (columns ds ! i) (rows (data ds) ! j ! i)"
proof -
  have "rows (data ds) ! j \<in> set (rows (data ds))" using j by (simp add: shape0_def)
  then have "length (rows (data ds) ! j) = length (columns ds)"
    using inv by (simp add: dataset_inv_def wf_array_def list_all_iff)
  then show ?thesis
    using i j by (simp add: normalize_refines [OF sim inv] shape0_def)
qed

text \<open>
  Claim C1, as the code has it.  In a simulation dataset whose array has one column
  per column name, normalize returns, and a value \<open>v\<close> of a column called y or z
  becomes \<open>(v - offset) * flip / D\<close>: the offset of the axis is subtracted first,
  the flip sign of the axis (1 when the dimensions have no such attribute) is
  multiplied next, the characteristic length divides last.  The dimensions give
  column y the offset 0.06, no flip attribute and so the flip 1, and \<open>D = 0.04\<close>;
  column z has the offset -0.2 and the flip -1.
\<close>

theorem normalize_spatial_column:
  assumes "is_simulation ds" and "dataset_inv ds"
    and "i < length (columns ds)" and "j < shape0 (data ds)"
    and "columns ds ! i = col" and "col = ''y'' \<or> col = ''z''"
  shows "\<exists>ds'. normalize_dataset ds react = Inr ds' \<and>
     rows (data ds') ! j ! i =
       (rows (data ds) ! j ! i - getattr (dimensions_init react) (col @ ''_offset'') 0)
         * getattr (dimensions_init react) (col @ ''_flip'') 1 / D (dimensions_init react) \<and>
     rows (data ds') ! j ! i =
       (if col = ''y'' then (rows (data ds) ! j ! i - 60 / 1000) * 1 / (40 / 1000)
        else (rows (data ds) ! j ! i - (- 200 / 1000)) * (- 1) / (40 / 1000))"
proof -
  from normalize_entry [OF assms(1-4), of react] obtain ds' where
    run: "normalize_dataset ds react = Inr ds'" and
    v: "rows (data ds') ! j ! i =
       spec_value (dimensions_init react) (name ds) col (rows (data ds) ! j ! i)"
    using assms(5) by auto
  from assms(6) have "spec_value (dimensions_init react) (name ds) col (rows (data ds) ! j ! i) =
       (rows (data ds) ! j ! i - getattr (dimensions_init react) (col @ ''_offset'') 0)
         * getattr (dimensions_init react) (col @ ''_flip'') 1 / D (dimensions_init react)"
    by (auto simp add: spec_value_def)
  moreover from assms(6) have "(rows (data ds) ! j ! i - getattr (dimensions_init react) (col @ ''_offset'') 0)
         * getattr (dimensions_init react) (col @ ''_flip'') 1 / D (dimensions_init react) =
       (if col = ''y'' then (rows (data ds) ! j ! i - 60 / 1000) * 1 / (40 / 1000)
        else (rows (data ds) ! j ! i - (- 200 / 1000)) * (- 1) / (40 / 1000))"
    by (auto simp add: dimensions_values)
  ultimately show ?thesis using run v by simp
qed

text \<open>
  The value 0.5 of a column y becomes 11, with the sign kept.  (The instances here
  are ones that double precision computes exactly.)
\<close>

theorem normalize_spatial_column_witness:
  "\<exists>ds'. normalize_dataset
      \<lparr>columns = [''y''], data = \<lparr>shape1 = 1, rows = [[1 / 2]]\<rparr>, name = ''Umean'',
       is_simulation = True\<rparr> True = Inr ds' \<and>
     rows (data ds') ! 0 ! 0 = 11"
  using normalize_spatial_column [of "\<lparr>columns = [''y''],
      data = \<lparr>shape1 = 1, rows = [[1 / 2]]\<rparr>, name = ''Umean'', is_simulation = True\<rparr>"
      0 0 "''y''" True]
  by (auto simp add: dataset_inv_def wf_array_def shape0_def)

text \<open>
  The instance that C1 gives does not happen: column y has the flip sign 1 for both
  values of the flag, so the value 0.1 (100 mm) does not become -1, and the number
  100 becomes 2498.5.
\<close>

theorem normalize_spatial_column_counterexample:
  "getattr (dimensions_init True) ''y_flip'' 1 = 1 \<and>
   getattr (dimensions_init False) ''y_flip'' 1 = 1 \<and>
   normalize_dataset
      \<lparr>columns = [''y''], data = \<lparr>shape1 = 1, rows = [[100 / 1000]]\<rparr>, name = ''Umean'',
       is_simulation = True\<rparr> True
     \<noteq> Inr \<lparr>columns = [''y''], data = \<lparr>shape1 = 1, rows = [[- 1]]\<rparr>, name = ''Umean'',
       is_simulation = True\<rparr> \<and>
   normalize_dataset
      \<lparr>columns = [''y''], data = \<lparr>shape1 = 1, rows = [[100]]\<rparr>, name = ''Umean'',
       is_simulation = True\<rparr> True
     = Inr \<lparr>columns = [''y''], data = \<lparr>shape1 = 1, rows = [[4997 / 2]]\<rparr>, name = ''Umean'',
       is_simulation = True\<rparr>"
  by (simp add: normalize_dataset_def normalize_step_def enumerate_eq_zip seq_def col_isub_def
      col_imul_def col_idiv_def col_update_def dimensions_init_def getattr_def Let_def)

text \<open>
  Claim C2.  In a simulation dataset whose array has one column per column name,
  normalize returns, and a value \<open>v\<close> of a column called Ux, Uy or Uz becomes
  \<open>v * flip / Ubulk\<close> when the name of the dataset does not contain \<open>fluct\<close>,
  and \<open>v / Ubulk\<close> when it does.  The flip is that of the axis the column name
  ends with (-1 for z, the default 1 for x and y), and \<open>Ubulk\<close> is 17.6 for a
  reacting flow and 16.6 otherwise.
\<close>

theorem normalize_velocity_column:
  assumes "is_simulation ds" and "dataset_inv ds"
    and "i < length (columns ds)" and "j < shape0 (data ds)"
    and "columns ds ! i = col" and "col = ''Ux'' \<or> col = ''Uy'' \<or> col = ''Uz''"
  shows "\<exists>ds'. normalize_dataset ds react = Inr ds' \<and>
     rows (data ds') ! j ! i =
       (if \<not> str_contains (name ds) ''fluct''
        then rows (data ds) ! j ! i * getattr (dimensions_init react) ([last col] @ ''_flip'') 1
               / Ubulk (dimensions_init react)
        else rows (data ds) ! j ! i / Ubulk (dimensions_init react)) \<and>
     Ubulk (dimensions_init react) = (if react then 176 / 10 else 166 / 10) \<and>
     getattr (dimensions_init react) ([last col] @ ''_flip'') 1 = (if col = ''Uz'' then - 1 else 1)"
proof -
  from normalize_entry [OF assms(1-4), of react] obtain ds' where
    run: "normalize_dataset ds react = Inr ds'" and
    v: "rows (data ds') ! j ! i =
       spec_value (dimensions_init react) (name ds) col (rows (data ds) ! j ! i)"
    using assms(5) by auto
  from assms(6) have "spec_value (dimensions_init react) (name ds) col (rows (data ds) ! j ! i) =
       (if \<not> str_contains (name ds) ''fluct''
        then rows (data ds) ! j ! i * getattr (dimensions_init react) ([last col] @ ''_flip'') 1
               / Ubulk (dimensions_init react)
        else rows (data ds) ! j ! i / Ubulk (dimensions_init react))"
    by (auto simp add: spec_value_def)
  moreover from assms(6) have
    "getattr (dimensions_init react) ([last col] @ ''_flip'') 1 = (if col = ''Uz'' then - 1 else 1)"
    by (auto simp add: dimensions_values)
  ultimately show ?thesis using run v by (simp add: dimensions_values)
qed

text \<open>Reacting flow, column Ux with flip 1: the value 17.6 becomes 1.\<close>

theorem normalize_velocity_column_witness:
  "\<exists>ds'. normalize_dataset
      \<lparr>columns = [''Ux''], data = \<lparr>shape1 = 1, rows = [[176 / 10]]\<rparr>, name = ''Umean'',
       is_simulation = True\<rparr> True = Inr ds' \<and>
     rows (data ds') ! 0 ! 0 = 1"
  using normalize_velocity_column [of "\<lparr>columns = [''Ux''],
      data = \<lparr>shape1 = 1, rows = [[176 / 10]]\<rparr>, name = ''Umean'', is_simulation = True\<rparr>"
      0 0 "''Ux''" True]
  by (auto simp add: dataset_inv_def wf_array_def shape0_def)

text \<open>
  Claim C3.  On a dataset that is not a simulation, normalize fails with the
  assertion error for either value of the flag; on a simulation dataset it never
  fails with that error.
\<close>

theorem normalize_assertion:
  "(\<not> is_simulation ds \<longrightarrow> normalize_dataset ds react = Inl AssertionError) \<and>
   (is_simulation ds \<longrightarrow> normalize_dataset ds react \<noteq> Inl AssertionError)"
proof (intro conjI impI)
  assume "\<not> is_simulation ds"
  then show "normalize_dataset ds react = Inl AssertionError"
    by (simp add: normalize_dataset_def)
next
  assume sim: "is_simulation ds"
  show "normalize_dataset ds react \<noteq> Inl AssertionError"
  proof
    assume "normalize_dataset ds react = Inl AssertionError"
    then have "normalize_loop (dimensions_init react) (name ds) (enumerate 0 (columns ds)) (data ds)
        = Inl AssertionError"
      using sim by (simp add: normalize_dataset_def seq_def split: sum.splits)
    from normalize_loop_error [OF this] show False by simp
  qed
qed

text \<open>An experimental dataset under both flags, and a simulation dataset.\<close>

theorem normalize_assertion_witness:
  "normalize_dataset \<lparr>columns = [''y''], data = \<lparr>shape1 = 1, rows = [[1]]\<rparr>, name = ''exp'',
       is_simulation = False\<rparr> True = Inl AssertionError \<and>
   normalize_dataset \<lparr>columns = [''y''], data = \<lparr>shape1 = 1, rows = [[1]]\<rparr>, name = ''exp'',
       is_simulation = False\<rparr> False = Inl AssertionError \<and>
   normalize_dataset \<lparr>columns = [''y''], data = \<lparr>shape1 = 1, rows = [[1]]\<rparr>, name = ''sim'',
       is_simulation = True\<rparr> True \<noteq> Inl AssertionError"
  using normalize_assertion [of "\<lparr>columns = [''y''], data = \<lparr>shape1 = 1, rows = [[1]]\<rparr>,
       name = ''exp'', is_simulation = False\<rparr>" True]
    normalize_assertion [of "\<lparr>columns = [''y''], data = \<lparr>shape1 = 1, rows = [[1]]\<rparr>,
       name = ''exp'', is_simulation = False\<rparr>" False]
    normalize_assertion [of "\<lparr>columns = [''y''], data = \<lparr>shape1 = 1, rows = [[1]]\<rparr>,
       name = ''sim'', is_simulation = True\<rparr>" True]
  by simp

section \<open>The frame of normalize and the invariant\<close>

text \<open>An item assignment that returns leaves the shape of the array as it was.\<close>

lemma array_setitem_shape:
  assumes "array_setitem a k v = Inr a'"
  shows "shape1 a' = shape1 a \<and> shape0 a' = shape0 a \<and> (wf_array a \<longrightarrow> wf_array a')"
proof -
  from assms obtain rs cs f where
    a': "a' = a\<lparr>rows :=
             map (\<lambda>(r, row). if r \<in> set rs
                    then map (\<lambda>(c, x). if c \<in> set cs then f r c else x) (enumerate 0 row)
                    else row)
               (enumerate 0 (rows a))\<rparr>"
    by (auto simp add: array_setitem_def seq_def Let_def split: sum.splits)
  have "wf_array a'" if "wf_array a"
    using that unfolding a' wf_array_def list_all_iff
    by (auto simp add: in_set_enumerate_eq)
  then show ?thesis by (simp add: a' shape0_def)
qed

text \<open>
  Claim C4.  On a simulation dataset whose array has one column per column name,
  normalize returns a dataset with the same column names, name, simulation flag
  and shape, and every entry of a column whose name is not y, z, Ux, Uy or Uz is
  the entry it was.
\<close>

theorem normalize_frame:
  assumes "is_simulation ds" and "dataset_inv ds"
  shows "\<exists>ds'. normalize_dataset ds react = Inr ds' \<and>
     columns ds' = columns ds \<and> name ds' = name ds \<and>
     is_simulation ds' = is_simulation ds \<and> shape ds' = shape ds \<and>
     (\<forall>i<length (columns ds).
        columns ds ! i \<notin> {''y'', ''z'', ''Ux'', ''Uy'', ''Uz''} \<longrightarrow>
        (\<forall>j<shape0 (data ds). rows (data ds') ! j ! i = rows (data ds) ! j ! i))"
proof -
  let ?ds' = "ds\<lparr>data := (data ds)\<lparr>rows :=
       map (\<lambda>r. map2 (spec_value (dimensions_init react) (name ds)) (columns ds) r)
         (rows (data ds))\<rparr>\<rparr>"
  have run: "normalize_dataset ds react = Inr ?ds'"
    by (rule normalize_refines [OF assms])
  have same: "rows (data ?ds') ! j ! i = rows (data ds) ! j ! i"
    if i: "i < length (columns ds)" and j: "j < shape0 (data ds)"
      and c: "columns ds ! i \<notin> {''y'', ''z'', ''Ux'', ''Uy'', ''Uz''}" for i j
  proof -
    from normalize_entry [OF assms i j, of react] run
    have "rows (data ?ds') ! j ! i =
       spec_value (dimensions_init react) (name ds) (columns ds ! i) (rows (data ds) ! j ! i)"
      by simp
    also have "\<dots> = rows (data ds) ! j ! i" using c by (simp add: spec_value_def)
    finally show ?thesis .
  qed
  have "shape ?ds' = shape ds" by (simp add: shape_def array_shape_def shape0_def)
  with run same show ?thesis by (intro exI [of _ ?ds']) simp
qed

text \<open>A temperature column beside a y column keeps its two values.\<close>

theorem normalize_frame_witness:
  "\<exists>ds'. normalize_dataset
      \<lparr>columns = [''y'', ''T''], data = \<lparr>shape1 = 2, rows = [[1, 300], [2, 350]]\<rparr>,
       name = ''Tmean'', is_simulation = True\<rparr> False = Inr ds' \<and>
     columns ds' = [''y'', ''T''] \<and> name ds' = ''Tmean'' \<and> is_simulation ds' \<and>
     shape ds' = (2, 2) \<and> rows (data ds') ! 0 ! 1 = 300 \<and> rows (data ds') ! 1 ! 1 = 350"
  using normalize_frame [of "\<lparr>columns = [''y'', ''T''],
      data = \<lparr>shape1 = 2, rows = [[1, 300], [2, 350]]\<rparr>, name = ''Tmean'',
      is_simulation = True\<rparr>" False]
  by (auto simp add: dataset_inv_def wf_array_def shape0_def shape_def array_shape_def
      less_Suc_eq numeral_2_eq_2)

text \<open>
  Claim C5.  Normalize is not idempotent: there is a simulation dataset with a
  single column y, and one with a single column Ux, on which a second call with the
  same flag changes the data that the first call produced.
\<close>

theorem normalize_not_idempotent:
  "(\<exists>ds react ds1 ds2. is_simulation ds \<and> dataset_inv ds \<and> columns ds = [''y''] \<and>
      normalize_dataset ds react = Inr ds1 \<and> normalize_dataset ds1 react = Inr ds2 \<and>
      data ds2 \<noteq> data ds1) \<and>
   (\<exists>ds react ds1 ds2. is_simulation ds \<and> dataset_inv ds \<and> columns ds = [''Ux''] \<and>
      normalize_dataset ds react = Inr ds1 \<and> normalize_dataset ds1 react = Inr ds2 \<and>
      data ds2 \<noteq> data ds1)"
proof (intro conjI)
  let ?d = "\<lambda>c v. \<lparr>columns = [c], data = \<lparr>shape1 = 1, rows = [[v]]\<rparr>, name = ''Umean'',
       is_simulation = True\<rparr>"
  have y1: "normalize_dataset (?d ''y'' (1 / 10)) False = Inr (?d ''y'' 1)"
    and y2: "normalize_dataset (?d ''y'' 1) False = Inr (?d ''y'' (47 / 2))"
    and u1: "normalize_dataset (?d ''Ux'' (166 / 10)) False = Inr (?d ''Ux'' 1)"
    and u2: "normalize_dataset (?d ''Ux'' 1) False = Inr (?d ''Ux'' (10 / 166))"
    by (simp_all add: normalize_refines dataset_inv_def wf_array_def spec_value_def
        dimensions_values)
  show "\<exists>ds react ds1 ds2. is_simulation ds \<and> dataset_inv ds \<and> columns ds = [''y''] \<and>
      normalize_dataset ds react = Inr ds1 \<and> normalize_dataset ds1 react = Inr ds2 \<and>
      data ds2 \<noteq> data ds1"
    using y1 y2
    by (intro exI [of _ "?d ''y'' (1 / 10)"] exI [of _ False] exI [of _ "?d ''y'' 1"]
        exI [of _ "?d ''y'' (47 / 2)"]) (simp add: dataset_inv_def wf_array_def)
  show "\<exists>ds react ds1 ds2. is_simulation ds \<and> dataset_inv ds \<and> columns ds = [''Ux''] \<and>
      normalize_dataset ds react = Inr ds1 \<and> normalize_dataset ds1 react = Inr ds2 \<and>
      data ds2 \<noteq> data ds1"
    using u1 u2
    by (intro exI [of _ "?d ''Ux'' (166 / 10)"] exI [of _ False] exI [of _ "?d ''Ux'' 1"]
        exI [of _ "?d ''Ux'' (10 / 166)"]) (simp add: dataset_inv_def wf_array_def)
qed

text \<open>
  Claim C6.  A construction whose number of column names differs from the number of
  columns of the array fails with the assertion error; a construction that returns
  gives a dataset with the invariant; and normalize and item assignment, when they
  return, take a dataset with the invariant to a dataset with the invariant.
\<close>

theorem dataset_invariant:
  "(length cols \<noteq> shape1 dat \<longrightarrow> dataset_init cols dat nm sim = Inl AssertionError) \<and>
   (wf_array dat \<longrightarrow> dataset_init cols dat nm sim = Inr ds \<longrightarrow> dataset_inv ds) \<and>
   (dataset_inv dsa \<longrightarrow> normalize_dataset dsa react = Inr dsb \<longrightarrow> dataset_inv dsb) \<and>
   (dataset_inv dsa \<longrightarrow> setitem dsa k v = Inr dsc \<longrightarrow> dataset_inv dsc)"
proof (intro conjI impI)
  assume "length cols \<noteq> shape1 dat"
  then show "dataset_init cols dat nm sim = Inl AssertionError"
    by (simp add: dataset_init_def)
next
  assume "wf_array dat" and "dataset_init cols dat nm sim = Inr ds"
  then show "dataset_inv ds"
    by (auto simp add: dataset_init_def dataset_inv_def split: if_splits)
next
  assume inv: "dataset_inv dsa" and run: "normalize_dataset dsa react = Inr dsb"
  from run have sim: "is_simulation dsa"
    by (auto simp add: normalize_dataset_def split: if_splits)
  from run normalize_refines [OF sim inv, of react] inv show "dataset_inv dsb"
    by (auto simp add: dataset_inv_def wf_array_def list_all_iff)
next
  assume inv: "dataset_inv dsa" and run: "setitem dsa k v = Inr dsc"
  from run obtain a where a: "array_setitem (data dsa) k v = Inr a"
    and dsc: "dsc = dsa\<lparr>data := a\<rparr>"
    by (auto simp add: setitem_def seq_def split: sum.splits)
  from array_setitem_shape [OF a] inv show "dataset_inv dsc"
    by (simp add: dsc dataset_inv_def)
qed

text \<open>
  Claim C10.  On a dataset with the constructor's invariant, npoints is the second
  component of the shape and equals the number of column names: it counts the
  columns, not the rows of data points.
\<close>

theorem npoints_is_column_count:
  assumes "dataset_inv ds"
  shows "npoints ds = snd (shape ds) \<and> npoints ds = length (columns ds)"
  using assms by (simp add: npoints_def shape_def array_shape_def dataset_inv_def)

text \<open>Three data points in two columns: npoints is 2.\<close>

theorem npoints_is_column_count_witness:
  "dataset_init [''y'', ''Ux''] \<lparr>shape1 = 2, rows = [[0, 1], [2, 3], [4, 5]]\<rparr> ''Umean'' True
     = Inr \<lparr>columns = [''y'', ''Ux''], data = \<lparr>shape1 = 2, rows = [[0, 1], [2, 3], [4, 5]]\<rparr>,
            name = ''Umean'', is_simulation = True\<rparr> \<and>
   npoints \<lparr>columns = [''y'', ''Ux''], data = \<lparr>shape1 = 2, rows = [[0, 1], [2, 3], [4, 5]]\<rparr>,
            name = ''Umean'', is_simulation = True\<rparr> = 2 \<and>
   shape \<lparr>columns = [''y'', ''Ux''], data = \<lparr>shape1 = 2, rows = [[0, 1], [2, 3], [4, 5]]\<rparr>,
            name = ''Umean'', is_simulation = True\<rparr> = (3, 2)"
  using npoints_is_column_count [of "\<lparr>columns = [''y'', ''Ux''],
      data = \<lparr>shape1 = 2, rows = [[0, 1], [2, 3], [4, 5]]\<rparr>, name = ''Umean'',
      is_simulation = True\<rparr>"]
  by (simp add: dataset_inv_def wf_array_def dataset_init_def shape_def array_shape_def
      shape0_def)


text \<open>
  One column name for two columns is refused; a dataset of two columns keeps the
  invariant through normalize and through \<^verbatim>\<open>ds[:, -2] = 7\<close>.
\<close>

theorem dataset_invariant_witness:
  "dataset_init [''y''] \<lparr>shape1 = 2, rows = [[0, 1]]\<rparr> ''Umean'' True = Inl AssertionError \<and>
   dataset_inv \<lparr>columns = [''y'', ''Ux''], data = \<lparr>shape1 = 2, rows = [[0, 1]]\<rparr>,
      name = ''Umean'', is_simulation = True\<rparr> \<and>
   dataset_inv \<lparr>columns = [''y'', ''Ux''], data = \<lparr>shape1 = 2, rows = [[- 3 / 2, 10 / 166]]\<rparr>,
      name = ''Umean'', is_simulation = True\<rparr> \<and>
   dataset_inv \<lparr>columns = [''y'', ''Ux''], data = \<lparr>shape1 = 2, rows = [[7, 1]]\<rparr>,
      name = ''Umean'', is_simulation = True\<rparr>"
proof -
  let ?a = "\<lparr>shape1 = 2, rows = [[0, 1]]\<rparr>"
  let ?ds = "\<lparr>columns = [''y'', ''Ux''], data = ?a, name = ''Umean'', is_simulation = True\<rparr>"
  let ?ds1 = "\<lparr>columns = [''y'', ''Ux''], data = \<lparr>shape1 = 2, rows = [[- 3 / 2, 10 / 166]]\<rparr>,
      name = ''Umean'', is_simulation = True\<rparr>"
  let ?ds2 = "\<lparr>columns = [''y'', ''Ux''], data = \<lparr>shape1 = 2, rows = [[7, 1]]\<rparr>,
      name = ''Umean'', is_simulation = True\<rparr>"
  have wf: "wf_array ?a" by (simp add: wf_array_def)
  have mk: "dataset_init [''y'', ''Ux''] ?a ''Umean'' True = Inr ?ds"
    by (simp add: dataset_init_def)
  have inv: "dataset_inv ?ds" by (simp add: dataset_inv_def wf_array_def)
  have nz: "normalize_dataset ?ds False = Inr ?ds1"
    by (simp add: normalize_dataset_def normalize_step_def enumerate_eq_zip seq_def
      col_isub_def col_imul_def col_idiv_def col_update_def dimensions_init_def getattr_def
      Let_def upt_rec)
  have si: "setitem ?ds (Key2 Slice_all (Idx (- 2))) (Scalar 7) = Inr ?ds2"
    by (simp add: setitem_def array_setitem_def seq_def norm_index_def shape0_def
      enumerate_eq_zip Let_def upt_rec)
  have bad: "length [''y''] \<noteq> shape1 ?a" by simp
  from dataset_invariant [where cols = "[''y'']" and dat = ?a and nm = "''Umean''" and sim = True]
    bad
  have 1: "dataset_init [''y''] ?a ''Umean'' True = Inl AssertionError" by blast
  from dataset_invariant [where cols = "[''y'', ''Ux'']" and dat = ?a and nm = "''Umean''"
      and sim = True and ds = ?ds and dsa = ?ds and react = False and dsb = ?ds1
      and k = "Key2 Slice_all (Idx (- 2))" and v = "Scalar 7" and dsc = ?ds2]
    wf mk inv nz si
  have "dataset_inv ?ds \<and> dataset_inv ?ds1 \<and> dataset_inv ?ds2" by blast
  with 1 show ?thesis by blast
qed

section \<open>Properties of strings and paths\<close>

lemma startswith_slash: "startswith s ''/'' \<longleftrightarrow> s \<noteq> [] \<and> hd s = CHR ''/''"
  by (cases s) auto

lemma endswith_slash: "endswith s ''/'' \<longleftrightarrow> s \<noteq> [] \<and> last s = CHR ''/''"
  by (cases s rule: rev_cases) (auto simp add: endswith_def)

lemma startswith_append: "startswith (p @ s) p"
  by (induction p) auto

lemma str_contains_startswith: "startswith s p \<Longrightarrow> str_contains s p"
  by (cases s; cases p) simp_all

lemma str_contains_append: "str_contains s p \<Longrightarrow> str_contains (q @ s) p"
proof (induction q)
  case Nil
  then show ?case by simp
next
  case (Cons c q)
  then show ?case by simp
qed

lemma str_contains_mid: "str_contains (q @ p @ s) p"
  by (rule str_contains_append, rule str_contains_startswith, rule startswith_append)

text \<open>\<open>str_contains\<close> is the substring test, \<open>startswith\<close> the prefix test.\<close>

lemma startswith_iff: "startswith s p \<longleftrightarrow> (\<exists>b. s = p @ b)"
  by (induction s p rule: startswith.induct) simp_all

lemma str_contains_iff: "str_contains s p \<longleftrightarrow> (\<exists>a b. s = a @ p @ b)"
proof
  assume "str_contains s p"
  then show "\<exists>a b. s = a @ p @ b"
  proof (induction s)
    case Nil
    then show ?case by simp
  next
    case (Cons c cs)
    show ?case
    proof (cases "startswith (c # cs) p")
      case True
      then obtain b where "c # cs = p @ b" unfolding startswith_iff by blast
      then have "c # cs = [] @ p @ b" by simp
      then show ?thesis by blast
    next
      case False
      with Cons.prems have "str_contains cs p" by simp
      from Cons.IH [OF this] obtain a b where "cs = a @ p @ b" by blast
      then have "c # cs = (c # a) @ p @ b" by simp
      then show ?thesis by blast
    qed
  qed
next
  assume "\<exists>a b. s = a @ p @ b"
  then obtain a b where "s = a @ p @ b" by blast
  then show "str_contains s p" by (simp only: str_contains_mid)
qed

lemma split_sep_nonempty: "split_sep c s \<noteq> []"
  by (induction s) (simp_all split: list.splits)

lemma split_sep_no_sep: "w \<in> set (split_sep c s) \<Longrightarrow> c \<notin> set w"
proof (induction s arbitrary: w)
  case Nil
  then show ?case by simp
next
  case (Cons x s)
  show ?case
  proof (cases "x = c")
    case True
    with Cons.prems have "w = [] \<or> w \<in> set (split_sep c s)" by simp
    then show ?thesis using Cons.IH by auto
  next
    case False
    obtain w0 ws where sp: "split_sep c s = w0 # ws"
      using split_sep_nonempty [of c s] by (cases "split_sep c s") simp_all
    with False Cons.prems have "w = x # w0 \<or> w \<in> set ws" by simp
    moreover have "c \<notin> set w0" and "\<And>v. v \<in> set ws \<Longrightarrow> c \<notin> set v"
      using Cons.IH sp by simp_all
    ultimately show ?thesis using False by auto
  qed
qed

lemma normpath_step_inv:
  assumes "\<forall>w\<in>set acc. w \<noteq> [] \<and> c \<notin> set w" and "c \<notin> set x"
  shows "\<forall>w\<in>set (normpath_step k acc x). w \<noteq> [] \<and> c \<notin> set w"
proof -
  have "set (butlast acc) \<subseteq> set acc" by (auto dest: in_set_butlastD)
  then have "set (normpath_step k acc x) \<subseteq> set acc \<union> (if x = [] then {} else {x})"
    by (simp add: normpath_step_def) blast
  then show ?thesis using assms by (auto split: if_splits)
qed

lemma normpath_fold_inv:
  assumes "\<forall>w\<in>set acc. w \<noteq> [] \<and> c \<notin> set w" and "\<forall>x\<in>set xs. c \<notin> set x"
  shows "\<forall>w\<in>set (foldl (normpath_step k) acc xs). w \<noteq> [] \<and> c \<notin> set w"
  using assms
proof (induction xs arbitrary: acc)
  case Nil
  then show ?case by simp
next
  case (Cons x xs)
  have x: "c \<notin> set x" and xs: "\<forall>y\<in>set xs. c \<notin> set y"
    using Cons.prems(2) by simp_all
  have 1: "\<forall>w\<in>set (normpath_step k acc x). w \<noteq> [] \<and> c \<notin> set w"
    by (rule normpath_step_inv [OF Cons.prems(1) x])
  have "\<forall>w\<in>set (foldl (normpath_step k) (normpath_step k acc x) xs). w \<noteq> [] \<and> c \<notin> set w"
    by (rule Cons.IH [OF 1 xs])
  then show ?case by simp
qed

lemma str_join_last:
  "ws \<noteq> [] \<Longrightarrow> \<forall>w\<in>set ws. w \<noteq> [] \<Longrightarrow>
     str_join sep ws \<noteq> [] \<and> last (str_join sep ws) = last (last ws)"
  by (induction sep ws rule: str_join.induct) simp_all

lemma two_slashes: "replicate 2 CHR ''/'' = ''//''"
  by (simp add: numeral_2_eq_2)

lemma normpath_abs: "isabs p \<Longrightarrow> isabs (normpath p)"
  by (cases p) (simp_all add: isabs_def normpath_def Let_def two_slashes)

lemma normpath_trailing:
  assumes "endswith (normpath p) ''/''"
  shows "normpath p = ''/'' \<or> normpath p = ''//''"
proof (cases "p = []")
  case True
  with assms show ?thesis by (simp add: normpath_def endswith_def)
next
  case False
  define k :: nat where "k = (if startswith p ''/''
                then (if startswith p ''//'' \<and> \<not> startswith p ''///'' then 2 else 1)
                else 0)"
  define nc where "nc = foldl (normpath_step k) [] (split_sep CHR ''/'' p)"
  define q where "q = (if k \<noteq> 0 then replicate k CHR ''/'' @ str_join ''/'' nc
                        else str_join ''/'' nc)"
  have np: "normpath p = (if q = [] then ''.'' else q)"
    using False by (simp add: normpath_def Let_def k_def nc_def q_def)
  have inv: "\<forall>w\<in>set nc. w \<noteq> [] \<and> CHR ''/'' \<notin> set w"
    unfolding nc_def by (rule normpath_fold_inv) (auto dest: split_sep_no_sep)
  show ?thesis
  proof (cases "nc = []")
    case True
    then have "q = replicate k CHR ''/''" by (simp add: q_def)
    moreover have "k = 0 \<or> k = 1 \<or> k = 2" by (simp add: k_def)
    ultimately have "q = [] \<or> q = ''/'' \<or> q = ''//''"
      by (auto simp add: two_slashes)
    then show ?thesis using np assms by (auto simp add: endswith_slash)
  next
    case nc: False
    have ln: "last nc \<in> set nc" using nc by simp
    have ne: "\<forall>w\<in>set nc. w \<noteq> []" using inv by blast
    have jl: "str_join ''/'' nc \<noteq> [] \<and> last (str_join ''/'' nc) = last (last nc)"
      by (rule str_join_last [OF nc ne])
    have l1: "last nc \<noteq> []" and ns: "CHR ''/'' \<notin> set (last nc)"
      using inv ln by blast+
    from l1 have "last (last nc) \<in> set (last nc)" by simp
    with ns have neq: "last (last nc) \<noteq> CHR ''/''" by (cases "last (last nc) = CHR ''/''") simp_all
    have "q \<noteq> [] \<and> last q = last (last nc)" using jl by (simp add: q_def)
    with neq np have "\<not> endswith (normpath p) ''/''" by (simp add: endswith_slash)
    with assms show ?thesis by simp
  qed
qed

lemma abspath_abs: "isabs (cwd e) \<Longrightarrow> isabs (abspath e p)"
proof -
  assume c: "isabs (cwd e)"
  have "isabs (pjoin (cwd e) [p])" if "\<not> isabs p"
    using c that by (cases "cwd e") (auto simp add: pjoin_def join2_def isabs_def)
  then show ?thesis using c by (auto simp add: abspath_def intro: normpath_abs)
qed

lemma abspath_trailing:
  "endswith (abspath e p) ''/'' \<Longrightarrow> abspath e p = ''/'' \<or> abspath e p = ''//''"
  by (cases "isabs p") (simp_all add: abspath_def normpath_trailing)

section \<open>Case paths, graph directories and colours\<close>

lemma join2_relative:
  "\<not> startswith b ''/'' \<Longrightarrow> a \<noteq> [] \<Longrightarrow> \<not> endswith a ''/'' \<Longrightarrow> join2 a b = a @ ''/'' @ b"
  by (simp add: join2_def)

lemma join2_root:
  assumes abs: "isabs B" and tr: "endswith B ''/'' \<Longrightarrow> B = ''/'' \<or> B = ''//''"
    and rs: "rs = ''reacting'' \<or> rs = ''non-reacting''"
  shows "join2 B rs = (if B = ''/'' \<or> B = ''//'' then B @ rs else B @ ''/'' @ rs)"
    and "join2 B rs \<noteq> []" and "\<not> endswith (join2 B rs) ''/''" and "isabs (join2 B rs)"
proof -
  have ne: "B \<noteq> []" using abs by (auto simp add: isabs_def)
  have nrs: "\<not> startswith rs ''/''" using rs by auto
  have e: "B = ''/'' \<or> B = ''//'' \<Longrightarrow> endswith B ''/''" by (auto simp add: endswith_def)
  show j: "join2 B rs = (if B = ''/'' \<or> B = ''//'' then B @ rs else B @ ''/'' @ rs)"
    using ne nrs tr e by (auto simp add: join2_def)
  have l: "rs \<noteq> [] \<and> last rs = CHR ''g''" using rs by auto
  then have "last (join2 B rs) = CHR ''g''" unfolding j by simp
  moreover show "join2 B rs \<noteq> []" unfolding j using ne by simp
  ultimately show "\<not> endswith (join2 B rs) ''/''" by (simp add: endswith_slash)
  show "isabs (join2 B rs)" unfolding j using abs ne
    by (cases B) (auto simp add: isabs_def)
qed

text \<open>
  Claim C7, as the code has it.  Let \<open>B\<close> be the absolute form of the base path
  given, or of the parent of the script's directory when none (or an empty one) is
  given, and let the working directory be absolute.  Then get_cases returns as many
  paths as there are case names, leaves \<open>B\<close> joined with \<open>reacting\<close> or
  \<open>non-reacting\<close> as the new base path, and the path of every case name that does not
  begin with a slash is that base path, a slash and the case name, and is absolute.
  (When \<open>B\<close> is the root, the join adds no second slash.)
\<close>

theorem get_cases_paths:
  assumes "isabs (cwd e)"
    and "B = (case base_path self of
                None \<Rightarrow> abspath e (pjoin (script_dir e) [''..''])
              | Some b \<Rightarrow> if b \<noteq> [] then abspath e b
                          else abspath e (pjoin (script_dir e) [''..'']))"
    and "rs = (if reacting self then ''reacting'' else ''non-reacting'')"
    and "rootp = (if B = ''/'' \<or> B = ''//'' then B @ rs else B @ ''/'' @ rs)"
  shows "length (fst (get_cases e self)) = length (cases self) \<and>
     isabs B \<and> base_path (snd (get_cases e self)) = Some rootp \<and>
     (\<forall>i<length (cases self). \<not> startswith (cases self ! i) ''/'' \<longrightarrow>
        fst (get_cases e self) ! i = rootp @ ''/'' @ cases self ! i \<and>
        isabs (fst (get_cases e self) ! i))"
proof -
  obtain X where X: "B = abspath e X"
    using assms(2) by (cases "base_path self") (auto split: if_splits)
  have abs: "isabs B" unfolding X by (rule abspath_abs [OF assms(1)])
  have tr: "endswith B ''/'' \<Longrightarrow> B = ''/'' \<or> B = ''//''"
    unfolding X by (rule abspath_trailing)
  have rs: "rs = ''reacting'' \<or> rs = ''non-reacting''" using assms(3) by simp
  note jr = join2_root [OF abs tr rs]
  have rootp: "join2 B rs = rootp" using jr(1) assms(4) by simp
  have gc: "get_cases e self = (map (\<lambda>c. join2 rootp c) (cases self), self\<lparr>base_path := Some rootp\<rparr>)"
    using rootp by (simp add: get_cases_def Let_def pjoin_def assms(2,3))
  have rel: "join2 rootp c = rootp @ ''/'' @ c" if "\<not> startswith c ''/''" for c
    using that jr(2,3) unfolding rootp by (rule join2_relative)
  have abs': "isabs (rootp @ ''/'' @ c)" for c
    using jr(4) jr(2) unfolding rootp by (cases rootp) (auto simp add: isabs_def)
  show ?thesis using abs rel abs' by (simp add: gc)
qed

text \<open>Two cases of a non-reacting run, with the default base path.\<close>

theorem get_cases_paths_witness:
  "length (fst (get_cases
      \<lparr>cwd = ''/home/u'', script_dir = ''/repo/plotting'', isdir = (\<lambda>p. False)\<rparr>
      \<lparr>cases = [''caseA'', ''caseB''], reacting = False, t_start = 0, t_end = - 1,
       base_path = None, out_path = None, velocity_component = [''z'', ''y''],
       style = None\<rparr>)) = 2 \<and>
   fst (get_cases
      \<lparr>cwd = ''/home/u'', script_dir = ''/repo/plotting'', isdir = (\<lambda>p. False)\<rparr>
      \<lparr>cases = [''caseA'', ''caseB''], reacting = False, t_start = 0, t_end = - 1,
       base_path = None, out_path = None, velocity_component = [''z'', ''y''],
       style = None\<rparr>) ! 0 = ''/repo/non-reacting/caseA'' \<and>
   fst (get_cases
      \<lparr>cwd = ''/home/u'', script_dir = ''/repo/plotting'', isdir = (\<lambda>p. False)\<rparr>
      \<lparr>cases = [''caseA'', ''caseB''], reacting = False, t_start = 0, t_end = - 1,
       base_path = None, out_path = None, velocity_component = [''z'', ''y''],
       style = None\<rparr>) ! 1 = ''/repo/non-reacting/caseB''"
proof -
  let ?e = "\<lparr>cwd = ''/home/u'', script_dir = ''/repo/plotting'', isdir = (\<lambda>p. False)\<rparr>"
  let ?self = "\<lparr>cases = [''caseA'', ''caseB''], reacting = False, t_start = 0, t_end = - 1,
       base_path = None, out_path = None, velocity_component = [''z'', ''y''], style = None\<rparr>"
  have a: "isabs (cwd ?e)" by (simp add: isabs_def)
  have B: "''/repo'' = (case base_path ?self of
                None \<Rightarrow> abspath ?e (pjoin (script_dir ?e) [''..''])
              | Some b \<Rightarrow> if b \<noteq> [] then abspath ?e b
                          else abspath ?e (pjoin (script_dir ?e) [''..'']))"
    by (simp add: abspath_def isabs_def pjoin_def join2_def endswith_def normpath_def
        normpath_step_def Let_def)
  have r: "''non-reacting'' = (if reacting ?self then ''reacting'' else ''non-reacting'')"
    by simp
  have p: "''/repo/non-reacting'' =
      (if ''/repo'' = ''/'' \<or> ''/repo'' = ''//'' then ''/repo'' @ ''non-reacting''
       else ''/repo'' @ ''/'' @ ''non-reacting'')"
    by simp
  note t = get_cases_paths [OF a B r p]
  from t have l: "length (fst (get_cases ?e ?self)) = length (cases ?self)" by blast
  from t have q: "\<And>i. i < length (cases ?self) \<Longrightarrow> \<not> startswith (cases ?self ! i) ''/'' \<Longrightarrow>
      fst (get_cases ?e ?self) ! i = ''/repo/non-reacting'' @ ''/'' @ cases ?self ! i"
    by blast
  have "fst (get_cases ?e ?self) ! 0 = ''/repo/non-reacting/caseA''"
    using q [of 0] by simp
  moreover have "fst (get_cases ?e ?self) ! 1 = ''/repo/non-reacting/caseB''"
    using q [of 1] by simp
  ultimately show ?thesis using l by simp
qed

text \<open>
  A case name that is itself an absolute path replaces the base path in the join:
  the result is not under the \<open>reacting\<close> directory.
\<close>

theorem get_cases_paths_counterexample:
  "fst (get_cases \<lparr>cwd = ''/home/u'', script_dir = ''/repo/plotting'', isdir = (\<lambda>p. False)\<rparr>
      \<lparr>cases = [''/data/run1''], reacting = True, t_start = 0, t_end = - 1,
       base_path = Some ''/sim'', out_path = None, velocity_component = [''z'', ''y''],
       style = None\<rparr>)
     = [''/data/run1''] \<and>
   base_path (snd (get_cases \<lparr>cwd = ''/home/u'', script_dir = ''/repo/plotting'',
        isdir = (\<lambda>p. False)\<rparr>
      \<lparr>cases = [''/data/run1''], reacting = True, t_start = 0, t_end = - 1,
       base_path = Some ''/sim'', out_path = None, velocity_component = [''z'', ''y''],
       style = None\<rparr>)) = Some ''/sim/reacting'' \<and>
   \<not> startswith ''/data/run1'' ''/sim/reacting/''"
  by (simp add: get_cases_def abspath_def isabs_def pjoin_def join2_def endswith_def normpath_def
      normpath_step_def Let_def)











text \<open>
  The base path that get_cases, and so the constructor of the options, leaves is
  not empty and has no trailing slash: it ends with \<open>reacting\<close>.
\<close>

lemma get_cases_base_path:
  "\<exists>bp. base_path (snd (get_cases e self)) = Some bp \<and> bp \<noteq> [] \<and> \<not> endswith bp ''/''"
proof -
  have "join2 B rs \<noteq> [] \<and> \<not> endswith (join2 B rs) ''/''"
    if "rs = ''reacting'' \<or> rs = ''non-reacting''" for B rs
  proof -
    from that have "join2 B rs = B @ rs \<or> join2 B rs = B @ ''/'' @ rs"
      by (auto simp add: join2_def)
    moreover from that have "rs \<noteq> [] \<and> last rs = CHR ''g''" by auto
    ultimately have "join2 B rs \<noteq> [] \<and> last (join2 B rs) = CHR ''g''" by auto
    then show ?thesis by (simp add: endswith_slash)
  qed
  then show ?thesis by (simp add: get_cases_def Let_def pjoin_def)
qed

lemma UserOptions_init_base_path:
  "\<exists>bp. base_path (UserOptions_init e cs r ts te b op vc) = Some bp \<and> bp \<noteq> [] \<and>
        \<not> endswith bp ''/''"
proof -
  have "base_path (UserOptions_init e cs r ts te b op vc) =
      base_path (snd (get_cases e \<lparr>cases = cs, reacting = r, t_start = ts, t_end = te,
        base_path = b, out_path = op,
        velocity_component = (if vc = ''both'' then [''z'', ''y''] else [vc]),
        style = None\<rparr>))"
    by (simp add: UserOptions_init_def Let_def)
  then show ?thesis using get_cases_base_path by simp
qed




text \<open>
  Claim C9, as the code has it.  The colour map of a style made for \<open>N\<close> cases has
  \<open>N + 2\<close> entries and is Greys or inferno by the grey flag.  The experimental data
  get slot 0; case number \<open>c\<close> with \<open>0 \<le> c < N\<close> gets slot \<open>c + 1\<close>, which lies in
  the table and differs from the experimental slot; and two different case numbers
  in range get different slots.
\<close>

theorem color_assignment:
  assumes "style self = Some (PlotStyles_init cs g)"
    and "cm = color_map (PlotStyles_init cs g)"
  shows "lut_size cm = length cs + 2 \<and>
     cmap_name cm = (if g then ''Greys'' else ''inferno'') \<and>
     color self c True = Inr (cm, 0) \<and>
     (0 \<le> c \<and> c < int (length cs) \<longrightarrow>
        color self c False = Inr (cm, nat c + 1) \<and> nat c + 1 < lut_size cm \<and>
        color self c False \<noteq> color self c' True) \<and>
     (0 \<le> c \<and> c < int (length cs) \<and> 0 \<le> c' \<and> c' < int (length cs) \<and> c \<noteq> c' \<longrightarrow>
        color self c False \<noteq> color self c' False)"
  using assms
  by (auto simp add: color_def cmap_call_def color_map_def get_cmap_def PlotStyles_init_def
      Let_def)

text \<open>The style that the constructor of the options leaves.\<close>

lemma UserOptions_init_style:
  "style (UserOptions_init e cs r ts te bp op vc) =
     Some (PlotStyles_init (cases (UserOptions_init e cs r ts te bp op vc)) False)"
  "length (cases (UserOptions_init e cs r ts te bp op vc)) = length cs"
  by (simp_all add: UserOptions_init_def get_cases_def Let_def)

text \<open>Options for two cases: slots 1 and 2 for the cases, slot 0 for the experiment.\<close>

theorem color_assignment_witness:
  "color (UserOptions_init
       \<lparr>cwd = ''/home/u'', script_dir = ''/repo/plotting'', isdir = (\<lambda>p. False)\<rparr>
       [''caseA'', ''caseB''] False 0 (- 1) (Some ''/sim'') None ''both'') 0 False
     = Inr (\<lparr>cmap_name = ''inferno'', lut_size = 4\<rparr>, 1) \<and>
   color (UserOptions_init
       \<lparr>cwd = ''/home/u'', script_dir = ''/repo/plotting'', isdir = (\<lambda>p. False)\<rparr>
       [''caseA'', ''caseB''] False 0 (- 1) (Some ''/sim'') None ''both'') 1 False
     = Inr (\<lparr>cmap_name = ''inferno'', lut_size = 4\<rparr>, 2) \<and>
   color (UserOptions_init
       \<lparr>cwd = ''/home/u'', script_dir = ''/repo/plotting'', isdir = (\<lambda>p. False)\<rparr>
       [''caseA'', ''caseB''] False 0 (- 1) (Some ''/sim'') None ''both'') 0 True
     = Inr (\<lparr>cmap_name = ''inferno'', lut_size = 4\<rparr>, 0)"
proof -
  let ?self = "UserOptions_init
       \<lparr>cwd = ''/home/u'', script_dir = ''/repo/plotting'', isdir = (\<lambda>p. False)\<rparr>
       [''caseA'', ''caseB''] False 0 (- 1) (Some ''/sim'') None ''both''"
  let ?cm = "\<lparr>cmap_name = ''inferno'', lut_size = 4\<rparr>"
  have st: "style ?self = Some (PlotStyles_init (cases ?self) False)"
    by (rule UserOptions_init_style)
  have len: "length (cases ?self) = 2" by (simp add: UserOptions_init_style)
  have cm: "?cm = color_map (PlotStyles_init (cases ?self) False)"
    by (simp add: color_map_def get_cmap_def PlotStyles_init_def len)
  from color_assignment [OF st cm, of 0 0] color_assignment [OF st cm, of 1 0] len
  show ?thesis by simp
qed

text \<open>For two cases the colour map has four entries, not three.\<close>

theorem color_assignment_counterexample:
  "lut_size (color_map (PlotStyles_init [''caseA'', ''caseB''] False)) = 4 \<and>
   lut_size (color_map (PlotStyles_init [''caseA'', ''caseB''] True)) = 4 \<and>
   lut_size (color_map (PlotStyles_init [''caseA'', ''caseB''] False))
     \<noteq> length [''caseA'', ''caseB''] + 1"
  by (simp add: color_map_def get_cmap_def PlotStyles_init_def)

end
